theory Spec2Isabelle
  imports
    Complex_Main
    "HOL-Library.Char_ord"
    "HOL-Library.List_Lexorder"
    "HOL-Library.Product_Lexorder"
    "HOL-Library.Multiset"
begin

chapter \<open>The market-data pipeline of the trading terminal\<close>

text \<open>
  A shallow embedding of the data pipeline of the repository: the query cache of
  \<^verbatim>\<open>app/callbacks.py\<close>, the fetch adapter of \<^verbatim>\<open>src/fetch.py\<close> and the transforms of
  \<^verbatim>\<open>src/transform.py\<close>. Exceptions are values of the type \<open>error\<close>; pandas frames are
  records of a column set and a row list; mutation of frames is modelled on an explicit store
  where a property depends on it.
\<close>

section \<open>Definitions\<close>

datatype error = RuntimeError | KeyError | ValueError

subsection \<open>The query cache (\<^verbatim>\<open>app/callbacks.py\<close>)\<close>

text \<open>Python's \<^verbatim>\<open>sep.join(xs)\<close> and \<^verbatim>\<open>s.split(",")\<close>.\<close>

fun join :: "string \<Rightarrow> string list \<Rightarrow> string" where
  "join sep [] = []"
| "join sep [x] = x"
| "join sep (x # y # ys) = x @ sep @ join sep (y # ys)"

fun split_acc :: "string \<Rightarrow> string \<Rightarrow> string list" where
  "split_acc acc [] = [acc]"
| "split_acc acc (c # cs) =
     (if c = CHR '','' then acc # split_acc [] cs else split_acc (acc @ [c]) cs)"

definition split_comma :: "string \<Rightarrow> string list" where
  "split_comma s = split_acc [] s"

text \<open>
  \<^verbatim>\<open>update_main\<close>, lines 131-139: an empty selection returns the empty state without touching
  the cache (\<open>None\<close>); otherwise the tickers are joined with commas, in the order of the
  selection, and \<^verbatim>\<open>_cached_fetch(tickers_key, interval)\<close> is called. The arguments of that
  call are the key of \<^verbatim>\<open>lru_cache\<close>.
\<close>

type_synonym cache_key = "string \<times> string"

definition tickers_key :: "string list \<Rightarrow> string" where
  "tickers_key tickers = join '','' tickers"

definition update_main_key :: "string list \<Rightarrow> string \<Rightarrow> cache_key option" where
  "update_main_key tickers interval =
     (if tickers = [] then None else Some (tickers_key tickers, interval))"

text \<open>
  \<^verbatim>\<open>@lru_cache(maxsize=64)\<close>. The cache of \<^verbatim>\<open>functools\<close> keeps its entries in a queue ordered
  by recency; the model is the list of entries, least recently used first. A hit moves the
  entry to the most recent end and returns the stored result. A miss runs the decorated body;
  when the body raises, the exception propagates and nothing is stored; otherwise, when the
  cache is full the oldest entry is dropped, and the new entry is added at the most recent end.

  The decorated body (lines 84-88) fetches from the provider, so its outcome may differ from
  call to call: the outcome the body would have at a call is the argument \<open>body\<close>, used on a
  miss only.
\<close>

type_synonym 'v lru = "(cache_key \<times> 'v) list"

definition maxsize :: nat where
  "maxsize = 64"

definition cached_fetch ::
  "'v lru \<Rightarrow> string \<Rightarrow> string \<Rightarrow> error + 'v \<Rightarrow> (error + 'v) \<times> 'v lru" where
  "cached_fetch cache tkey interval body =
     (case map_of cache (tkey, interval) of
        Some result \<Rightarrow>
          (Inr result,
           filter (\<lambda>e. fst e \<noteq> (tkey, interval)) cache @ [((tkey, interval), result)])
      | None \<Rightarrow>
          (case body of
             Inl e \<Rightarrow> (Inl e, cache)
           | Inr result \<Rightarrow>
               (Inr result,
                (if length cache \<ge> maxsize then tl cache else cache)
                  @ [((tkey, interval), result)])))"

text \<open>
  A request is the key of a call and the outcome its body would have. Running a sequence of
  requests threads the cache through the calls and records, for the statement of the recency
  policy, the keys whose entry was read (a hit) or written (a miss whose body returned), in
  the order of these accesses.
\<close>

type_synonym 'v request = "cache_key \<times> (error + 'v)"

definition accesses :: "'v lru \<Rightarrow> 'v request \<Rightarrow> bool" where
  "accesses cache rq = (fst rq \<in> fst ` set cache \<or> isl (snd rq) = False)"

definition step_log :: "'v lru \<times> cache_key list \<Rightarrow> 'v request \<Rightarrow> 'v lru \<times> cache_key list" where
  "step_log st rq =
     (snd (cached_fetch (fst st) (fst (fst rq)) (snd (fst rq)) (snd rq)),
      snd st @ (if accesses (fst st) rq then [fst rq] else []))"

definition run_log :: "'v request list \<Rightarrow> 'v lru \<times> cache_key list" where
  "run_log rqs = foldl step_log ([], []) rqs"

text \<open>
  The \<open>n\<close> most recently accessed keys of a log: its distinct keys in the order of their
  last occurrence, the last \<open>n\<close> of them.
\<close>

definition most_recent :: "nat \<Rightarrow> 'a list \<Rightarrow> 'a list" where
  "most_recent n xs = drop (length (remdups xs) - n) (remdups xs)"

text \<open>
  The time of the last access to a key in a log of accesses: the position, counted from 1, of
  its last occurrence, and 0 for a key that was never accessed.
\<close>

definition last_access :: "'a list \<Rightarrow> 'a \<Rightarrow> nat" where
  "last_access lg k = length lg - length (takeWhile (\<lambda>x. x \<noteq> k) (rev lg))"

text \<open>
  A sequence of requests that fills the cache: the 64 selections AA, AB, ..., HH at the
  interval 1d, each body returning its number, and then a read of the first one.
\<close>

definition symbols :: "string list" where
  "symbols = concat (map (\<lambda>a. map (\<lambda>b. [a, b]) ''ABCDEFGH'') ''ABCDEFGH'')"

definition fill_requests :: "nat request list" where
  "fill_requests =
     map (\<lambda>(n, s). ((s, ''1d''), Inr n)) (enumerate 0 symbols)
     @ [((''AA'', ''1d''), Inl RuntimeError)]"

subsection \<open>The fetch adapter (\<^verbatim>\<open>src/fetch.py\<close>)\<close>

text \<open>
  Column names are normalised with \<^verbatim>\<open>str(c).strip().lower().replace(" ", "_")\<close>; the model
  covers ASCII names (Python's methods also know the whitespace and the letters of Unicode).
\<close>

definition is_space :: "char \<Rightarrow> bool" where
  "is_space c = (of_char c \<in> {9, 10, 11, 12, 13, 28, 29, 30, 31, 32 :: nat})"

definition strip :: "string \<Rightarrow> string" where
  "strip s = rev (dropWhile is_space (rev (dropWhile is_space s)))"

definition lower :: "string \<Rightarrow> string" where
  "lower s =
     map (\<lambda>c. if 65 \<le> (of_char c :: nat) \<and> (of_char c :: nat) \<le> 90
              then char_of (of_char c + (32 :: nat)) else c) s"

definition replace_space :: "string \<Rightarrow> string" where
  "replace_space s = map (\<lambda>c. if c = CHR '' '' then CHR ''_'' else c) s"

definition normalize_name :: "string \<Rightarrow> string" where
  "normalize_name c = replace_space (lower (strip c))"

text \<open>
  What the provider returns for one ticker (\<^verbatim>\<open>yf.Ticker(t).history(...)\<close>): a frame with a
  time index, which may have a name, and named columns. A row is its index value and one cell
  for each column. The provider is a parameter of the model, and so is the type \<open>'c\<close> of the
  cells. A frame may have columns and no rows.
\<close>

record 'c raw_frame =
  index_name :: "string option"
  col_names :: "string list"
  raw_rows :: "('c \<times> 'c list) list"

type_synonym 'c provider = "string \<Rightarrow> string \<Rightarrow> string \<Rightarrow> bool \<Rightarrow> 'c raw_frame"

record 'c norm_frame =
  n_columns :: "string list"
  n_rows :: "'c list list"

text \<open>
  \<^verbatim>\<open>df.reset_index()\<close>: the index becomes the first column, named after the index, or
  \<^verbatim>\<open>index\<close> for an index without a name (\<^verbatim>\<open>level_0\<close> when a column \<^verbatim>\<open>index\<close> exists
  already); pandas refuses to insert a name that is a column already.
\<close>

definition reset_index :: "'c raw_frame \<Rightarrow> error + 'c norm_frame" where
  "reset_index df =
     (let name = (case index_name df of
                    Some n \<Rightarrow> n
                  | None \<Rightarrow> if ''index'' \<in> set (col_names df) then ''level_0'' else ''index'')
      in if name \<in> set (col_names df) then Inl ValueError
         else Inr \<lparr>n_columns = name # col_names df,
                   n_rows = map (\<lambda>(i, cs). i # cs) (raw_rows df)\<rparr>)"

definition rename :: "string \<Rightarrow> string \<Rightarrow> string list \<Rightarrow> string list" where
  "rename old new cols = map (\<lambda>c. if c = old then new else c) cols"

definition normalize_columns :: "'c raw_frame \<Rightarrow> error + 'c norm_frame" where
  "normalize_columns df =
     (case reset_index df of
        Inl e \<Rightarrow> Inl e
      | Inr out \<Rightarrow>
          (let c1 = map normalize_name (n_columns out);
               c2 = (if ''date'' \<notin> set c1 \<and> ''index'' \<in> set c1
                     then rename ''index'' ''date'' c1 else c1);
               c3 = (if ''close'' \<notin> set c2 \<and> ''adj_close'' \<in> set c2
                     then rename ''adj_close'' ''close'' c2 else c2)
           in Inr (out\<lparr>n_columns := c3\<rparr>)))"

text \<open>
  The loop of \<^verbatim>\<open>download_history_tidy\<close>, lines 56-68. A block is the list of its columns
  and its rows; a row is the ticker and the kept cells by column name. A ticker is skipped
  when none of the six canonical columns is among the normalised columns (line 63); a frame
  that has such columns and no rows is appended as a block without rows.
\<close>

definition canonical :: "string list" where
  "canonical = [''date'', ''open'', ''high'', ''low'', ''close'', ''volume'']"

type_synonym 'c block = "string list \<times> (string \<times> (string \<times> 'c) list) list"

definition make_block :: "string \<Rightarrow> string list \<Rightarrow> 'c norm_frame \<Rightarrow> 'c block" where
  "make_block t keep nf =
     (keep @ [''ticker''],
      map (\<lambda>r. (t, filter (\<lambda>(c, v). c \<in> set keep) (zip (n_columns nf) r))) (n_rows nf))"

fun collect_frames ::
  "'c provider \<Rightarrow> string \<Rightarrow> string \<Rightarrow> bool \<Rightarrow> string list \<Rightarrow> error + 'c block list" where
  "collect_frames history period interval auto_adjust [] = Inr []"
| "collect_frames history period interval auto_adjust (t # ts) =
     (case normalize_columns (history t period interval auto_adjust) of
        Inl e \<Rightarrow> Inl e
      | Inr nf \<Rightarrow>
          (let keep = filter (\<lambda>c. c \<in> set (n_columns nf)) canonical in
           case collect_frames history period interval auto_adjust ts of
             Inl e \<Rightarrow> Inl e
           | Inr frames \<Rightarrow>
               if keep = [] then Inr frames else Inr (make_block t keep nf # frames)))"

text \<open>
  The table that is returned: its columns and its rows. A row carries its ticker, its date
  after \<^verbatim>\<open>pd.to_datetime\<close> (an instant, or \<open>None\<close> for a missing date, pandas' NaT) and its
  cells. The parser \<^verbatim>\<open>pd.to_datetime\<close> is a parameter. Removing the time zone (lines 78-79)
  does not change the instant.
\<close>

record 'c fetched_row =
  f_ticker :: string
  f_date :: "int option"
  f_fields :: "(string \<times> 'c) list"

record 'c fetched =
  f_columns :: "string list"
  f_rows :: "'c fetched_row list"

text \<open>The key of \<^verbatim>\<open>sort_values(["ticker", "date"])\<close>; missing dates sort last.\<close>

definition date_key :: "int option \<Rightarrow> nat \<times> int" where
  "date_key d = (case d of Some i \<Rightarrow> (0, i) | None \<Rightarrow> (1, 0))"

definition fetched_key :: "'c fetched_row \<Rightarrow> string \<times> nat \<times> int" where
  "fetched_key r = (f_ticker r, date_key (f_date r))"

definition concat_columns :: "'c block list \<Rightarrow> string list" where
  "concat_columns frames = rev (remdups (rev (concat (map fst frames))))"

definition parse_dates :: "('c \<Rightarrow> int option) \<Rightarrow> string \<times> (string \<times> 'c) list \<Rightarrow> 'c fetched_row" where
  "parse_dates to_datetime r =
     \<lparr>f_ticker = fst r,
      f_date = (case map_of (snd r) ''date'' of None \<Rightarrow> None | Some c \<Rightarrow> to_datetime c),
      f_fields = snd r\<rparr>"

text \<open>
  \<^verbatim>\<open>download_history_tidy\<close>: \<^verbatim>\<open>RuntimeError\<close> when no block was collected (line 71, the
  error the specification calls NoDataError), \<^verbatim>\<open>KeyError\<close> when no block has a date column
  (line 74); otherwise the blocks are concatenated and sorted by ticker and date, with a
  stable sort.
\<close>

definition download_history_tidy ::
  "'c provider \<Rightarrow> ('c \<Rightarrow> int option) \<Rightarrow> string list \<Rightarrow> string \<Rightarrow> string \<Rightarrow> bool
   \<Rightarrow> error + 'c fetched" where
  "download_history_tidy history to_datetime tickers period interval auto_adjust =
     (case collect_frames history period interval auto_adjust tickers of
        Inl e \<Rightarrow> Inl e
      | Inr frames \<Rightarrow>
          if frames = [] then Inl RuntimeError
          else if ''date'' \<notin> set (concat_columns frames) then Inl KeyError
          else Inr \<lparr>f_columns = concat_columns frames,
                    f_rows = sort_key fetched_key
                               (map (parse_dates to_datetime) (concat (map snd frames)))\<rparr>)"

text \<open>
  Providers for the examples. The first answers every ticker with the frame the provider
  gives for an unknown symbol: the index and the price columns, and no rows; the second with
  a frame that has no columns, no rows and no name for its index. The third answers with one
  bar, at the instant 1, whatever the ticker; the fourth with two bars, the later one first.
\<close>

definition no_rows_provider :: "int provider" where
  "no_rows_provider t period interval auto_adjust =
     \<lparr>index_name = Some ''Date'',
      col_names = [''Open'', ''High'', ''Low'', ''Close'', ''Adj Close'', ''Volume''],
      raw_rows = []\<rparr>"

definition bare_provider :: "int provider" where
  "bare_provider t period interval auto_adjust =
     \<lparr>index_name = None, col_names = [], raw_rows = []\<rparr>"

definition one_bar_provider :: "int provider" where
  "one_bar_provider t period interval auto_adjust =
     \<lparr>index_name = Some ''Date'',
      col_names = [''Open'', ''High'', ''Low'', ''Close'', ''Volume''],
      raw_rows = [(1, [10, 12, 9, 11, 1000])]\<rparr>"

definition two_bar_provider :: "int provider" where
  "two_bar_provider t period interval auto_adjust =
     \<lparr>index_name = Some ''Date'',
      col_names = [''Close''],
      raw_rows = [(2, [11]), (1, [10])]\<rparr>"

text \<open>
  The rows one ticker contributes to the concatenation, and their dates in the returned
  table.
\<close>

definition ticker_rows ::
  "'c provider \<Rightarrow> string \<Rightarrow> string \<Rightarrow> bool \<Rightarrow> string \<Rightarrow> (string \<times> (string \<times> 'c) list) list" where
  "ticker_rows history period interval auto_adjust t =
     (case normalize_columns (history t period interval auto_adjust) of
        Inl e \<Rightarrow> []
      | Inr nf \<Rightarrow>
          (let keep = filter (\<lambda>c. c \<in> set (n_columns nf)) canonical
           in if keep = [] then [] else snd (make_block t keep nf)))"

definition ticker_dates ::
  "'c provider \<Rightarrow> ('c \<Rightarrow> int option) \<Rightarrow> string \<Rightarrow> string \<Rightarrow> bool \<Rightarrow> string \<Rightarrow> int option list" where
  "ticker_dates history to_datetime period interval auto_adjust t =
     map (\<lambda>r. f_date (parse_dates to_datetime r)) (ticker_rows history period interval auto_adjust t)"

subsection \<open>Numbers of the derived columns\<close>

text \<open>
  The derived columns hold floating-point numbers. The model keeps the special values of
  IEEE 754 apart and idealises the finite ones as real numbers: rounding, overflow and the
  sign of zero are not modelled. \<open>NaN\<close> is the absent value of pandas (\<^verbatim>\<open>isna\<close>); the
  infinities are not absent.

  So a finite result of \<open>fl_div\<close>, \<open>fl_plus\<close> or \<open>fl_mul\<close> stands for the double the code
  computes, which is that real number rounded, or an infinity when it is beyond the range of
  a double (the quotient of the closes \<open>2 ^ 512\<close> and \<open>2 ^ - 512\<close>, for one). Where a statement
  below names a cell as \<open>Fin\<close> of a real formula, the formula is the expression the code
  evaluates; equations between real formulas that hold by algebra only are not claimed of the
  code.
\<close>

datatype fl = Fin real | PInf | NInf | NaN

text \<open>Division of two finite numbers, as numpy divides: no exception on a zero divisor.\<close>

definition fl_div :: "real \<Rightarrow> real \<Rightarrow> fl" where
  "fl_div a b =
     (if b \<noteq> 0 then Fin (a / b)
      else if 0 < a then PInf else if a < 0 then NInf else NaN)"

text \<open>Adding a finite number.\<close>

fun fl_plus :: "fl \<Rightarrow> real \<Rightarrow> fl" where
  "fl_plus (Fin x) c = Fin (x + c)"
| "fl_plus PInf c = PInf"
| "fl_plus NInf c = NInf"
| "fl_plus NaN c = NaN"

fun fl_mul :: "fl \<Rightarrow> fl \<Rightarrow> fl" where
  "fl_mul NaN y = NaN"
| "fl_mul x NaN = NaN"
| "fl_mul (Fin a) (Fin b) = Fin (a * b)"
| "fl_mul (Fin a) PInf = (if a = 0 then NaN else if 0 < a then PInf else NInf)"
| "fl_mul (Fin a) NInf = (if a = 0 then NaN else if 0 < a then NInf else PInf)"
| "fl_mul PInf (Fin b) = (if b = 0 then NaN else if 0 < b then PInf else NInf)"
| "fl_mul NInf (Fin b) = (if b = 0 then NaN else if 0 < b then NInf else PInf)"
| "fl_mul PInf PInf = PInf"
| "fl_mul PInf NInf = NInf"
| "fl_mul NInf PInf = NInf"
| "fl_mul NInf NInf = PInf"

fun is_fin :: "fl \<Rightarrow> bool" where
  "is_fin (Fin x) = True"
| "is_fin v = False"

fun fin_val :: "fl \<Rightarrow> real" where
  "fin_val (Fin x) = x"
| "fin_val v = 0"

subsection \<open>Tidy frames (\<^verbatim>\<open>src/transform.py\<close>)\<close>

text \<open>
  The derived columns, by name: \<^verbatim>\<open>daily_return\<close>, \<^verbatim>\<open>cum_return\<close> and, for a window \<open>w\<close>,
  \<^verbatim>\<open>vol_{w}d_ann\<close>. A tidy frame is the set of derived columns it has and its rows; a row has
  the base columns and a cell for each derived column, which means something for the columns
  of the frame only. Prices are numbers (a missing price is outside the model). The row labels
  of pandas are not modelled: they are unique in the frames of the pipeline, where assigning a
  column by label is assigning it by position.
\<close>

datatype col = DailyReturn | CumReturn | Vol int

record row =
  date :: int
  ticker :: string
  opn :: real
  high :: real
  low :: real
  close :: real
  volume :: int
  cells :: "col \<Rightarrow> fl"

record frame =
  columns :: "col set"
  rows :: "row list"

text \<open>\<^verbatim>\<open>sort_values(["ticker", "date"])\<close> sorts stably on more than one column.\<close>

definition row_key :: "row \<Rightarrow> string \<times> int" where
  "row_key r = (ticker r, date r)"

definition sort_values :: "frame \<Rightarrow> frame" where
  "sort_values df = df\<lparr>rows := sort_key row_key (rows df)\<rparr>"

text \<open>\<^verbatim>\<open>df[c] = values\<close>: the column is added, or overwritten, position by position.\<close>

definition set_column :: "col \<Rightarrow> fl list \<Rightarrow> frame \<Rightarrow> frame" where
  "set_column c vs df =
     df\<lparr>columns := insert c (columns df),
        rows := map (\<lambda>(r, v). r\<lparr>cells := (cells r)(c := v)\<rparr>) (zip (rows df) vs)\<rparr>"

text \<open>
  A grouped transform (\<^verbatim>\<open>groupby("ticker")\<close> followed by \<^verbatim>\<open>pct_change\<close>, \<^verbatim>\<open>cumprod\<close> or
  \<^verbatim>\<open>rolling\<close>) walks the rows in order with one accumulator for each ticker and gives one
  value for each row, at the position of the row. \<open>scan\<close> is the same walk over one group.
\<close>

fun group_scan :: "('s \<Rightarrow> 'x \<Rightarrow> 'y \<times> 's) \<Rightarrow> (string \<Rightarrow> 's) \<Rightarrow> (string \<times> 'x) list \<Rightarrow> 'y list" where
  "group_scan step acc [] = []"
| "group_scan step acc ((k, x) # kxs) =
     (case step (acc k) x of (y, s) \<Rightarrow> y # group_scan step (acc(k := s)) kxs)"

fun scan :: "('s \<Rightarrow> 'x \<Rightarrow> 'y \<times> 's) \<Rightarrow> 's \<Rightarrow> 'x list \<Rightarrow> 'y list" where
  "scan step s [] = []"
| "scan step s (x # xs) = (case step s x of (y, s') \<Rightarrow> y # scan step s' xs)"

text \<open>
  \<^verbatim>\<open>pct_change\<close>: the close divided by the previous close of the group, minus 1; absent for
  the first row of a group.
\<close>

definition pct :: "real \<Rightarrow> real \<Rightarrow> fl" where
  "pct c p = fl_plus (fl_div c p) (- 1)"

definition pct_step :: "real option \<Rightarrow> real \<Rightarrow> fl \<times> real option" where
  "pct_step prev c = ((case prev of None \<Rightarrow> NaN | Some p \<Rightarrow> pct c p), Some c)"

definition pct_change :: "row list \<Rightarrow> fl list" where
  "pct_change rs = group_scan pct_step (\<lambda>k. None) (map (\<lambda>r. (ticker r, close r)) rs)"

text \<open>
  \<^verbatim>\<open>cumprod\<close> of a group skips absent values: the result is absent there and the running
  product is kept.
\<close>

definition cumprod_step :: "fl \<Rightarrow> fl \<Rightarrow> fl \<times> fl" where
  "cumprod_step acc v = (if v = NaN then (NaN, acc) else (fl_mul acc v, fl_mul acc v))"

definition cumprod :: "(string \<times> fl) list \<Rightarrow> fl list" where
  "cumprod kvs = group_scan cumprod_step (\<lambda>k. Fin 1) kvs"

text \<open>
  \<^verbatim>\<open>compute_returns\<close>, lines 59-62.
\<close>

definition compute_returns :: "frame \<Rightarrow> frame" where
  "compute_returns long_df =
     (let df = sort_values long_df;
          df = set_column DailyReturn (pct_change (rows df)) df;
          df = set_column CumReturn
                 (map (\<lambda>v. fl_plus v (- 1))
                    (cumprod (map (\<lambda>r. (ticker r, fl_plus (cells r DailyReturn) 1)) (rows df))))
                 df
      in df)"

text \<open>
  \<^verbatim>\<open>rolling(window).std()\<close> of a group: the sample standard deviation (one degree of freedom
  removed) of the last \<open>window\<close> values, the current one included. The rolling functions of
  pandas read an infinite value as absent, and the result is absent unless the window holds
  \<open>window\<close> values that are all present; with fewer than two values the sample deviation is
  absent. The accumulator is the list of the last values of the group, the latest first.
\<close>

definition sample_var :: "real list \<Rightarrow> real" where
  "sample_var xs =
     (let m = sum_list xs / real (length xs)
      in sum_list (map (\<lambda>x. (x - m)\<^sup>2) xs) / real (length xs - 1))"

definition window_std :: "nat \<Rightarrow> fl list \<Rightarrow> fl" where
  "window_std w vs =
     (if length vs = w \<and> list_all is_fin vs \<and> 2 \<le> w
      then Fin (sqrt (sample_var (map fin_val vs))) else NaN)"

definition rolling_step :: "nat \<Rightarrow> fl list \<Rightarrow> fl \<Rightarrow> fl \<times> fl list" where
  "rolling_step w recent v = (window_std w (take w (v # recent)), take w (v # recent))"

definition rolling_std :: "nat \<Rightarrow> (string \<times> fl) list \<Rightarrow> fl list" where
  "rolling_std w kvs = group_scan (rolling_step w) (\<lambda>k. []) kvs"


text \<open>The rows of one ticker, in the order of the frame.\<close>

definition ticker_group :: "string \<Rightarrow> frame \<Rightarrow> row list" where
  "ticker_group T df = filter (\<lambda>r. ticker r = T) (rows df)"

text \<open>Example frames: rows of one ticker \<open>X\<close> with the given closes, at the dates 1, 2, ...\<close>

definition bar :: "string \<Rightarrow> int \<Rightarrow> real \<Rightarrow> row" where
  "bar t d c = \<lparr>date = d, ticker = t, opn = c, high = c, low = c, close = c, volume = 0,
               cells = (\<lambda>k. NaN)\<rparr>"

definition closes_frame :: "real list \<Rightarrow> frame" where
  "closes_frame cs =
     \<lparr>columns = {}, rows = map (\<lambda>(d, c). bar ''X'' (int d) c) (enumerate 1 cs)\<rparr>"



subsection \<open>Frames as objects\<close>










section \<open>Properties of the query cache\<close>

subsection \<open>The key of a request\<close>

lemma split_acc_nocomma:
  "CHR '','' \<notin> set x \<Longrightarrow> split_acc acc (x @ rest) = split_acc (acc @ x) rest"
  by (induction x arbitrary: acc) auto

lemma split_acc_join:
  "xs \<noteq> [] \<Longrightarrow> \<forall>x\<in>set xs. CHR '','' \<notin> set x \<Longrightarrow>
   split_acc acc (join '','' xs) = (acc @ hd xs) # tl xs"
proof (induction "'',''" xs arbitrary: acc rule: join.induct)
  case 1
  then show ?case by simp
next
  case (2 x)
  then show ?case using split_acc_nocomma [of x acc "[]"] by simp
next
  case (3 x y ys)
  have "split_acc acc (x @ '','' @ join '','' (y # ys))
        = split_acc (acc @ x) ('','' @ join '','' (y # ys))"
    using 3 by (simp add: split_acc_nocomma)
  also have "\<dots> = (acc @ x) # split_acc [] (join '','' (y # ys))" by simp
  also have "\<dots> = (acc @ x) # y # ys" using 3 by simp
  finally show ?case by simp
qed

text \<open>Line 84 recovers the selection from the key, for symbols without a comma.\<close>

lemma split_join:
  "xs \<noteq> [] \<Longrightarrow> \<forall>x\<in>set xs. CHR '','' \<notin> set x \<Longrightarrow> split_comma (tickers_key xs) = xs"
  by (simp add: split_comma_def tickers_key_def split_acc_join)

text \<open>
  Claim C1, as the code has it. The key is the selection joined in selection order, with the
  interval: two non-empty selections of comma-free symbols address the same cache entry
  exactly when they list the same symbols in the same order and the intervals are equal. The
  key is not sorted, so a reordered selection is a different key.
\<close>

theorem cache_key_same_entry_iff:
  assumes "tickers \<noteq> []" and "tickers' \<noteq> []"
    and "\<forall>t\<in>set tickers. CHR '','' \<notin> set t" and "\<forall>t\<in>set tickers'. CHR '','' \<notin> set t"
  shows "update_main_key tickers interval = update_main_key tickers' interval'
         \<longleftrightarrow> tickers = tickers' \<and> interval = interval'"
proof
  assume "update_main_key tickers interval = update_main_key tickers' interval'"
  with assms have k: "tickers_key tickers = tickers_key tickers'" and i: "interval = interval'"
    by (simp_all add: update_main_key_def)
  from k have "split_comma (tickers_key tickers) = split_comma (tickers_key tickers')" by simp
  with assms have "tickers = tickers'" by (simp add: split_join)
  with i show "tickers = tickers' \<and> interval = interval'" by simp
next
  assume "tickers = tickers' \<and> interval = interval'"
  then show "update_main_key tickers interval = update_main_key tickers' interval'" by simp
qed

theorem cache_key_same_entry_iff_witness:
  "[''AAPL'', ''MSFT''] \<noteq> [] \<and> [''MSFT'', ''AAPL''] \<noteq> []
   \<and> CHR '','' \<notin> set ''AAPL'' \<and> CHR '','' \<notin> set ''MSFT''
   \<and> update_main_key [''AAPL'', ''MSFT''] ''1d'' \<noteq> update_main_key [''MSFT'', ''AAPL''] ''1d''
   \<and> update_main_key [''AAPL'', ''MSFT''] ''1d'' = Some (''AAPL,MSFT'', ''1d'')"
  using cache_key_same_entry_iff [of "[''AAPL'', ''MSFT'']" "[''MSFT'', ''AAPL'']" "''1d''" "''1d''"]
  by (simp add: update_main_key_def tickers_key_def)

text \<open>
  Claim C1 as stated fails: the selections AAPL, MSFT and MSFT, AAPL hold the same set of
  symbols, their keys differ, and two calls with them leave two entries in the cache.
\<close>

theorem cache_key_order_counterexample:
  "set [''AAPL'', ''MSFT''] = set [''MSFT'', ''AAPL'']
   \<and> update_main_key [''AAPL'', ''MSFT''] ''1d'' \<noteq> update_main_key [''MSFT'', ''AAPL''] ''1d''
   \<and> map fst (fst (run_log
        [(the (update_main_key [''AAPL'', ''MSFT''] ''1d''), Inr (0::nat)),
         (the (update_main_key [''MSFT'', ''AAPL''] ''1d''), Inr 0)]))
      = [(''AAPL,MSFT'', ''1d''), (''MSFT,AAPL'', ''1d'')]"
  by (simp add: update_main_key_def tickers_key_def run_log_def step_log_def cached_fetch_def
      accesses_def maxsize_def insert_commute)

subsection \<open>The recency order of the cache\<close>

lemma remdups_snoc: "remdups (xs @ [k]) = removeAll k (remdups xs) @ [k]"
  by (induction xs) (auto simp: removeAll_filter_not_eq)

lemma keys_filter: "map fst (filter (\<lambda>e. fst e \<noteq> k) c) = removeAll k (map fst c)"
  by (induction c) auto

lemma map_of_keys: "(map_of c k = None) = (k \<notin> fst ` set c)"
  by (simp add: map_of_eq_None_iff)

lemma length_removeAll_distinct:
  "distinct xs \<Longrightarrow> length (removeAll k xs) = (if k \<in> set xs then length xs - 1 else length xs)"
  by (metis distinct_remove1_removeAll length_remove1)

lemma recent_hit:
  assumes "distinct (A @ K)" and "k \<in> set K" and "A = [] \<or> length K = n" and "length K \<le> n"
  shows "drop (length (removeAll k (A @ K) @ [k]) - n) (removeAll k (A @ K) @ [k])
         = removeAll k K @ [k]"
proof -
  from assms have notA: "k \<notin> set A" by auto
  have len: "length (removeAll k K) = length K - 1" and pos: "0 < length K"
    using assms by (auto simp: length_removeAll_distinct)
  have eq: "removeAll k (A @ K) @ [k] = A @ (removeAll k K @ [k])"
    using notA by simp
  have "length (removeAll k (A @ K) @ [k]) - n = length A"
    unfolding eq using assms(3,4) len pos by auto
  then show ?thesis unfolding eq by simp
qed

lemma recent_miss:
  assumes "distinct (A @ K)" and "k \<notin> set K" and "A = [] \<or> length K = n" and "length K \<le> n"
    and "0 < n"
  shows "drop (length (removeAll k (A @ K) @ [k]) - n) (removeAll k (A @ K) @ [k])
         = (if n \<le> length K then tl K else K) @ [k]"
proof -
  have eq: "removeAll k (A @ K) @ [k] = removeAll k A @ (K @ [k])"
    using assms(2) by simp
  have lenA: "length (removeAll k A) = (if k \<in> set A then length A - 1 else length A)"
    using assms(1) by (simp add: length_removeAll_distinct)
  show ?thesis
  proof (cases "n \<le> length K")
    case True
    with assms have lk: "length K = n" by simp
    then have "K \<noteq> []" using assms(5) by auto
    then obtain x K' where K: "K = x # K'" by (cases K) auto
    have "length (removeAll k (A @ K) @ [k]) - n = length (removeAll k A) + 1"
      unfolding eq using lk by simp
    then show ?thesis unfolding eq using True K by simp
  next
    case False
    with assms have "A = []" by auto
    then show ?thesis using False assms(2) by simp
  qed
qed

lemma most_recent_split:
  "\<exists>A. remdups xs = A @ most_recent n xs \<and> (A = [] \<or> length (most_recent n xs) = n)
       \<and> length (most_recent n xs) \<le> n"
proof -
  let ?R = "remdups xs" and ?d = "length (remdups xs) - n"
  have "?R = take ?d ?R @ most_recent n xs" by (simp add: most_recent_def)
  moreover have "take ?d ?R = [] \<or> length (most_recent n xs) = n"
    by (auto simp: most_recent_def)
  moreover have "length (most_recent n xs) \<le> n" by (auto simp: most_recent_def)
  ultimately show ?thesis by blast
qed

lemma step_log_recent:
  assumes inv: "map fst c = most_recent maxsize lg"
  shows "map fst (fst (step_log (c, lg) rq)) = most_recent maxsize (snd (step_log (c, lg) rq))"
proof -
  obtain k body where rq: "rq = (k, body)" by (cases rq)
  obtain tk iv where k: "k = (tk, iv)" by (cases k)
  obtain A where R: "remdups lg = A @ map fst c"
    and A: "A = [] \<or> length (map fst c) = maxsize" and le: "length (map fst c) \<le> maxsize"
    using most_recent_split [of lg maxsize] inv by auto
  have dist: "distinct (A @ map fst c)" using R by (metis distinct_remdups)
  show ?thesis
  proof (cases "map_of c k")
    case (Some v)
    then have kin: "k \<in> set (map fst c)" by (metis map_of_keys option.distinct(1) set_map)
    have "map fst (fst (step_log (c, lg) rq)) = removeAll k (map fst c) @ [k]"
      using Some by (simp add: step_log_def cached_fetch_def rq k keys_filter)
    moreover have "snd (step_log (c, lg) rq) = lg @ [k]"
      using kin by (simp add: step_log_def accesses_def rq)
    moreover have "most_recent maxsize (lg @ [k]) = removeAll k (map fst c) @ [k]"
      unfolding most_recent_def remdups_snoc R
      using recent_hit [OF dist kin A le] by simp
    ultimately show ?thesis by simp
  next
    case None
    then have kout: "k \<notin> set (map fst c)" by (simp add: map_of_keys)
    show ?thesis
    proof (cases body)
      case (Inl e)
      have "k \<notin> fst ` set c" using kout by simp
      then show ?thesis using None Inl inv
        by (simp add: step_log_def cached_fetch_def accesses_def rq k)
    next
      case (Inr v)
      have "map fst (fst (step_log (c, lg) rq))
            = (if maxsize \<le> length (map fst c) then tl (map fst c) else map fst c) @ [k]"
        using None Inr by (simp add: step_log_def cached_fetch_def rq k map_tl)
      moreover have "snd (step_log (c, lg) rq) = lg @ [k]"
        using Inr by (simp add: step_log_def accesses_def rq)
      moreover have "most_recent maxsize (lg @ [k])
            = (if maxsize \<le> length (map fst c) then tl (map fst c) else map fst c) @ [k]"
        unfolding most_recent_def remdups_snoc R
        using recent_miss [OF dist kout A le] by (simp add: maxsize_def)
      ultimately show ?thesis by simp
    qed
  qed
qed

lemma foldl_step_log_recent:
  "map fst (fst st) = most_recent maxsize (snd st) \<Longrightarrow>
   map fst (fst (foldl step_log st rqs)) = most_recent maxsize (snd (foldl step_log st rqs))"
proof (induction rqs arbitrary: st)
  case Nil
  then show ?case by simp
next
  case (Cons rq rqs)
  have "map fst (fst (step_log st rq)) = most_recent maxsize (snd (step_log st rq))"
    using step_log_recent [of "fst st" "snd st" rq] Cons.prems by simp
  then show ?case using Cons.IH by simp
qed

lemma run_log_recent:
  "map fst (fst (run_log rqs)) = most_recent maxsize (snd (run_log rqs))"
  unfolding run_log_def by (rule foldl_step_log_recent) (simp add: most_recent_def)

lemma last_access_snoc:
  "last_access (lg @ [x]) k = (if k = x then Suc (length lg) else last_access lg k)"
  by (simp add: last_access_def)

lemma last_access_le: "last_access lg k \<le> length lg"
  by (simp add: last_access_def)

lemma last_access_pos: "k \<in> set lg \<Longrightarrow> 0 < last_access lg k"
  by (induction lg rule: rev_induct) (auto simp: last_access_snoc)

lemma remdups_by_last_access:
  "sorted_wrt (\<lambda>a b. last_access lg a < last_access lg b) (remdups lg)"
proof (induction lg rule: rev_induct)
  case Nil
  then show ?case by simp
next
  case (snoc x lg)
  have "sorted_wrt (\<lambda>a b. last_access lg a < last_access lg b) (removeAll x (remdups lg))"
    using snoc.IH by (simp add: removeAll_filter_not_eq sorted_wrt_filter)
  then have "sorted_wrt (\<lambda>a b. last_access (lg @ [x]) a < last_access (lg @ [x]) b)
               (removeAll x (remdups lg))"
    by (rule sorted_wrt_mono_rel [rotated]) (auto simp: last_access_snoc)
  moreover have "\<forall>y\<in>set (removeAll x (remdups lg)).
                   last_access (lg @ [x]) y < last_access (lg @ [x]) x"
    using last_access_le [of lg] by (auto simp: last_access_snoc less_Suc_eq_le)
  ultimately show ?case by (simp add: remdups_snoc sorted_wrt_append)
qed

lemma most_recent_by_last_access:
  "sorted_wrt (\<lambda>a b. last_access lg a < last_access lg b) (most_recent n lg)"
  unfolding most_recent_def by (rule sorted_wrt_drop) (rule remdups_by_last_access)

lemma most_recent_distinct: "distinct (most_recent n lg)"
  by (simp add: most_recent_def)

lemma most_recent_length: "length (most_recent n lg) \<le> n"
  by (auto simp: most_recent_def)

lemma most_recent_subset: "set (most_recent n lg) \<subseteq> set lg"
  unfolding most_recent_def by (metis set_drop_subset set_remdups)

text \<open>
  Claim C7. After any sequence of requests from the empty cache: the cache holds at most
  \<open>maxsize = 64\<close> entries with distinct keys; they are the most recently accessed distinct
  keys of the access log, in strictly increasing order of the time of their last access (read
  or write), so the head of the queue is the least recently accessed entry; a new key whose
  body returns is added at the most recent end, and at capacity exactly the head is evicted;
  and an entry that is read is not the victim of the next insertion.
\<close>

theorem lru_cache_policy:
  fixes rqs :: "'v request list"
  shows "maxsize = 64
    \<and> length (fst (run_log rqs)) \<le> maxsize
    \<and> distinct (map fst (fst (run_log rqs)))
    \<and> map fst (fst (run_log rqs)) = most_recent maxsize (snd (run_log rqs))
    \<and> sorted_wrt (\<lambda>a b. last_access (snd (run_log rqs)) a < last_access (snd (run_log rqs)) b)
         (map fst (fst (run_log rqs)))
    \<and> (\<forall>e\<in>set (fst (run_log rqs)). 0 < last_access (snd (run_log rqs)) (fst e))
    \<and> ((tk, iv) \<notin> fst ` set (fst (run_log rqs)) \<longrightarrow>
         cached_fetch (fst (run_log rqs)) tk iv (Inr v)
         = (Inr v, (if length (fst (run_log rqs)) = maxsize then tl (fst (run_log rqs))
                    else fst (run_log rqs)) @ [((tk, iv), v)]))
    \<and> ((tk, iv) \<notin> fst ` set (fst (run_log rqs)) \<and> (tk', iv') \<in> fst ` set (fst (run_log rqs)) \<longrightarrow>
         (tk', iv') \<in> fst ` set (snd (cached_fetch
            (snd (cached_fetch (fst (run_log rqs)) tk' iv' body)) tk iv (Inr v))))"
proof -
  let ?c = "fst (run_log rqs)" and ?lg = "snd (run_log rqs)"
  have keys: "map fst ?c = most_recent maxsize ?lg" by (rule run_log_recent)
  have len: "length ?c \<le> maxsize"
    using most_recent_length [of maxsize ?lg] keys by (metis length_map)
  have dist: "distinct (map fst ?c)" by (simp add: keys most_recent_distinct)
  have sorted: "sorted_wrt (\<lambda>a b. last_access ?lg a < last_access ?lg b) (map fst ?c)"
    by (simp add: keys most_recent_by_last_access)
  have pos: "\<forall>e\<in>set ?c. 0 < last_access ?lg (fst e)"
  proof
    fix e assume "e \<in> set ?c"
    then have "fst e \<in> set (map fst ?c)" by simp
    then have "fst e \<in> set ?lg" using most_recent_subset [of maxsize ?lg] keys by auto
    then show "0 < last_access ?lg (fst e)" by (rule last_access_pos)
  qed
  have ins: "(tk, iv) \<notin> fst ` set ?c \<longrightarrow>
         cached_fetch ?c tk iv (Inr v)
         = (Inr v, (if length ?c = maxsize then tl ?c else ?c) @ [((tk, iv), v)])"
    using len by (auto simp: cached_fetch_def map_of_keys [symmetric])
  have prot: "(tk, iv) \<notin> fst ` set ?c \<and> (tk', iv') \<in> fst ` set ?c \<longrightarrow>
         (tk', iv') \<in> fst ` set (snd (cached_fetch (snd (cached_fetch ?c tk' iv' body)) tk iv (Inr v)))"
  proof
    assume a: "(tk, iv) \<notin> fst ` set ?c \<and> (tk', iv') \<in> fst ` set ?c"
    then obtain r where r: "map_of ?c (tk', iv') = Some r"
      by (metis map_of_keys not_Some_eq)
    let ?F = "filter (\<lambda>e. fst e \<noteq> (tk', iv')) ?c"
    have hit: "snd (cached_fetch ?c tk' iv' body) = ?F @ [((tk', iv'), r)]"
      using r by (simp add: cached_fetch_def)
    have ne: "(tk, iv) \<noteq> (tk', iv')" using a by auto
    have "(tk, iv) \<notin> fst ` set ?F" using a by auto
    then have miss: "map_of (?F @ [((tk', iv'), r)]) (tk, iv) = None"
      using ne by (simp add: map_of_keys)
    show "(tk', iv') \<in> fst ` set (snd (cached_fetch (snd (cached_fetch ?c tk' iv' body)) tk iv (Inr v)))"
    proof (cases ?F)
      case Nil
      then show ?thesis unfolding hit using miss by (simp add: cached_fetch_def maxsize_def)
    next
      case (Cons f F')
      then show ?thesis unfolding hit using miss by (simp add: cached_fetch_def)
    qed
  qed
  show ?thesis using len dist keys sorted pos ins prot by (simp add: maxsize_def)
qed

lemma fill_requests_keys:
  "map fst (fst (run_log fill_requests)) = map (\<lambda>s. (s, ''1d'')) (tl symbols @ [''AA''])"
  by code_simp

lemma symbols_facts:
  "length (tl symbols @ [''AA'']) = 64"
  "hd (tl symbols @ [''AA'']) = ''AB''"
  "''ZZ'' \<notin> set (tl symbols @ [''AA''])"
  "tl symbols @ [''AA''] \<noteq> []"
  by code_simp+

theorem lru_cache_policy_witness:
  "length (fst (run_log fill_requests)) = maxsize
   \<and> (''ZZ'', ''1d'') \<notin> fst ` set (fst (run_log fill_requests))
   \<and> (''AA'', ''1d'') \<in> fst ` set (fst (run_log fill_requests))
   \<and> fst (hd (fst (run_log fill_requests))) = (''AB'', ''1d'')
   \<and> cached_fetch (fst (run_log fill_requests)) ''ZZ'' ''1d'' (Inr 99)
       = (Inr 99, tl (fst (run_log fill_requests)) @ [((''ZZ'', ''1d''), 99)])
   \<and> 0 < last_access (snd (run_log fill_requests)) (''AB'', ''1d'')
   \<and> (''AA'', ''1d'') \<in> fst ` set (snd (cached_fetch
         (snd (cached_fetch (fst (run_log fill_requests)) ''AA'' ''1d'' (Inl RuntimeError)))
         ''ZZ'' ''1d'' (Inr 99)))"
proof -
  let ?c = "fst (run_log fill_requests)"
  have l: "length ?c = maxsize"
    using arg_cong [OF fill_requests_keys, of length] symbols_facts(1) by (simp add: maxsize_def)
  have s: "fst ` set ?c = set (map (\<lambda>s. (s, ''1d'')) (tl symbols @ [''AA'']))"
    using arg_cong [OF fill_requests_keys, of set] by simp
  have b: "(''ZZ'', ''1d'') \<notin> fst ` set ?c"
    unfolding s using symbols_facts(3) by auto
  have a: "(''AA'', ''1d'') \<in> fst ` set ?c"
    unfolding s by simp
  have "?c \<noteq> []" using l by (auto simp: maxsize_def)
  then have "fst (hd ?c) = hd (map fst ?c)" by (simp add: hd_map)
  moreover have "hd (map fst ?c) = (''AB'', ''1d'')"
    unfolding fill_requests_keys by code_simp
  ultimately have h: "fst (hd ?c) = (''AB'', ''1d'')" by simp
  have m: "hd ?c \<in> set ?c" using \<open>?c \<noteq> []\<close> by simp
  show ?thesis
    using lru_cache_policy [of fill_requests "''ZZ''" "''1d''" 99 "''AA''" "''1d''" "Inl RuntimeError"]
      l b a h m by auto
qed

section \<open>Properties of the fetch adapter\<close>

subsection \<open>Ordering of the returned table\<close>

lemma collect_frames_rows:
  "collect_frames h p i a ts = Inr frames \<Longrightarrow>
   concat (map snd frames) = concat (map (ticker_rows h p i a) ts)"
proof (induction ts arbitrary: frames)
  case Nil
  then show ?case by simp
next
  case (Cons t ts)
  then show ?case
    by (auto simp: ticker_rows_def Let_def split: sum.splits if_splits)
qed

lemma ticker_rows_ticker: "r \<in> set (ticker_rows h p i a t) \<Longrightarrow> fst r = t"
  by (auto simp: ticker_rows_def make_block_def Let_def split: sum.splits if_splits)

lemma date_key_inj: "inj date_key"
  by (auto simp: inj_on_def date_key_def split: option.splits)

lemma fetched_key_parse:
  "fetched_key (parse_dates td r) = (fst r, date_key (f_date (parse_dates td r)))"
  by (simp add: fetched_key_def parse_dates_def)

lemma ticker_keys_distinct:
  assumes "distinct (ticker_dates h td p i a t)"
  shows "distinct (map (\<lambda>r. fetched_key (parse_dates td r)) (ticker_rows h p i a t))"
proof -
  have "map (\<lambda>r. fetched_key (parse_dates td r)) (ticker_rows h p i a t)
        = map (\<lambda>d. (t, date_key d)) (ticker_dates h td p i a t)"
    by (auto simp: ticker_dates_def fetched_key_parse dest: ticker_rows_ticker)
  moreover have "inj_on (\<lambda>d. (t, date_key d)) (set (ticker_dates h td p i a t))"
    using date_key_inj by (auto simp: inj_on_def)
  ultimately show ?thesis using assms by (simp add: distinct_map)
qed

lemma all_keys_distinct:
  "distinct ts \<Longrightarrow> \<forall>t\<in>set ts. distinct (ticker_dates h td p i a t) \<Longrightarrow>
   distinct (map (\<lambda>r. fetched_key (parse_dates td r)) (concat (map (ticker_rows h p i a) ts)))"
proof (induction ts)
  case Nil
  then show ?case by simp
next
  case (Cons t ts)
  have disj: "set (map (\<lambda>r. fetched_key (parse_dates td r)) (ticker_rows h p i a t))
        \<inter> set (map (\<lambda>r. fetched_key (parse_dates td r)) (concat (map (ticker_rows h p i a) ts))) = {}"
  proof (rule ccontr)
    let ?F = "\<lambda>r. fetched_key (parse_dates td r)"
    assume "\<not> ?thesis"
    then obtain k where k1: "k \<in> set (map ?F (ticker_rows h p i a t))"
      and k2: "k \<in> set (map ?F (concat (map (ticker_rows h p i a) ts)))" by blast
    from k1 obtain r where r: "r \<in> set (ticker_rows h p i a t)" "k = ?F r" by auto
    from k2 obtain t' r' where r': "t' \<in> set ts" "r' \<in> set (ticker_rows h p i a t')" "k = ?F r'"
      by auto
    have "fst r = t" using r(1) by (rule ticker_rows_ticker)
    moreover have "fst r' = t'" using r'(2) by (rule ticker_rows_ticker)
    moreover have "fst r = fst r'" using r(2) r'(3) by (simp add: fetched_key_parse)
    ultimately have "t = t'" by simp
    with r'(1) Cons.prems(1) show False by simp
  qed
  show ?case using Cons ticker_keys_distinct [of h td p i a t] disj by simp
qed

lemma strict_sorted_sort_key:
  assumes "distinct (map f xs)"
  shows "sorted_wrt (\<lambda>a b. f a < f b) (sort_key f xs)"
proof -
  have "sorted (map f (sort_key f xs))" by simp
  moreover have "distinct (map f (sort_key f xs))"
    using assms by (metis mset_sort mset_map mset_eq_imp_distinct_iff)
  ultimately have "sorted_wrt (<) (map f (sort_key f xs))"
    by (simp add: strict_sorted_iff)
  then show ?thesis by (simp add: sorted_wrt_map)
qed

text \<open>
  Claim C8, as the code has it. A table that is returned is sorted by ticker and date
  ascending, missing dates last; ties are possible, since nothing removes duplicates. When the
  requested tickers are distinct and the provider's bars of each ticker have distinct dates,
  the rows are strictly increasing by (ticker, date), no pair of ticker and date occurs twice,
  and within every ticker group the dates are strictly increasing.
\<close>

theorem download_sorted_by_ticker_date:
  assumes "download_history_tidy history to_datetime tickers period interval auto_adjust = Inr df"
  shows "sorted (map fetched_key (f_rows df))
    \<and> (distinct tickers
         \<and> (\<forall>t\<in>set tickers. distinct (ticker_dates history to_datetime period interval auto_adjust t))
       \<longrightarrow> sorted_wrt (\<lambda>a b. fetched_key a < fetched_key b) (f_rows df)
           \<and> distinct (map (\<lambda>r. (f_ticker r, f_date r)) (f_rows df))
           \<and> (\<forall>T. sorted_wrt (\<lambda>a b. date_key (f_date a) < date_key (f_date b))
                     (filter (\<lambda>r. f_ticker r = T) (f_rows df))))"
proof -
  from assms obtain frames where
    fr: "collect_frames history period interval auto_adjust tickers = Inr frames"
    and rows: "f_rows df = sort_key fetched_key
                 (map (parse_dates to_datetime) (concat (map snd frames)))"
    by (auto simp: download_history_tidy_def split: sum.splits if_splits)
  have s: "sorted (map fetched_key (f_rows df))" unfolding rows by simp
  have strict: "sorted_wrt (\<lambda>a b. fetched_key a < fetched_key b) (f_rows df)
           \<and> distinct (map (\<lambda>r. (f_ticker r, f_date r)) (f_rows df))
           \<and> (\<forall>T. sorted_wrt (\<lambda>a b. date_key (f_date a) < date_key (f_date b))
                     (filter (\<lambda>r. f_ticker r = T) (f_rows df)))"
    if d: "distinct tickers"
      and dd: "\<forall>t\<in>set tickers. distinct (ticker_dates history to_datetime period interval auto_adjust t)"
  proof -
    have "distinct (map fetched_key (map (parse_dates to_datetime) (concat (map snd frames))))"
      using all_keys_distinct [OF d dd] collect_frames_rows [OF fr] by (simp add: comp_def)
    then have st: "sorted_wrt (\<lambda>a b. fetched_key a < fetched_key b) (f_rows df)"
      unfolding rows by (rule strict_sorted_sort_key)
    have "sorted_wrt (<) (map fetched_key (f_rows df))"
      using st by (simp add: sorted_wrt_map)
    then have "distinct (map fetched_key (f_rows df))"
      by (simp add: strict_sorted_iff)
    then have dk: "distinct (map (\<lambda>r. (f_ticker r, f_date r)) (f_rows df))"
      using date_key_inj
      by (auto simp: distinct_map inj_on_def fetched_key_def)
    have "sorted_wrt (\<lambda>a b. date_key (f_date a) < date_key (f_date b))
                     (filter (\<lambda>r. f_ticker r = T) (f_rows df))" for T
    proof -
      have "sorted_wrt (\<lambda>a b. fetched_key a < fetched_key b) (filter (\<lambda>r. f_ticker r = T) (f_rows df))"
        using st by (rule sorted_wrt_filter)
      then show ?thesis
        by (rule sorted_wrt_mono_rel [rotated]) (auto simp: fetched_key_def less_prod_def)
    qed
    with st dk show ?thesis by simp
  qed
  from s strict show ?thesis by blast
qed

lemma two_bar_download:
  "download_history_tidy two_bar_provider Some [''MSFT'', ''AAPL''] ''6mo'' ''1d'' True
   = Inr \<lparr>f_columns = [''date'', ''close'', ''ticker''],
          f_rows =
            [\<lparr>f_ticker = ''AAPL'', f_date = Some 1, f_fields = [(''date'', 1), (''close'', 10)]\<rparr>,
             \<lparr>f_ticker = ''AAPL'', f_date = Some 2, f_fields = [(''date'', 2), (''close'', 11)]\<rparr>,
             \<lparr>f_ticker = ''MSFT'', f_date = Some 1, f_fields = [(''date'', 1), (''close'', 10)]\<rparr>,
             \<lparr>f_ticker = ''MSFT'', f_date = Some 2, f_fields = [(''date'', 2), (''close'', 11)]\<rparr>]\<rparr>"
  by code_simp

lemma two_bar_dates:
  "ticker_dates two_bar_provider Some ''6mo'' ''1d'' True t = [Some 2, Some 1]"
  by (simp add: ticker_dates_def ticker_rows_def two_bar_provider_def normalize_columns_def
      reset_index_def canonical_def make_block_def parse_dates_def) code_simp

theorem download_sorted_by_ticker_date_witness:
  "download_history_tidy two_bar_provider Some [''MSFT'', ''AAPL''] ''6mo'' ''1d'' True
   = Inr \<lparr>f_columns = [''date'', ''close'', ''ticker''],
          f_rows =
            [\<lparr>f_ticker = ''AAPL'', f_date = Some 1, f_fields = [(''date'', 1), (''close'', 10)]\<rparr>,
             \<lparr>f_ticker = ''AAPL'', f_date = Some 2, f_fields = [(''date'', 2), (''close'', 11)]\<rparr>,
             \<lparr>f_ticker = ''MSFT'', f_date = Some 1, f_fields = [(''date'', 1), (''close'', 10)]\<rparr>,
             \<lparr>f_ticker = ''MSFT'', f_date = Some 2, f_fields = [(''date'', 2), (''close'', 11)]\<rparr>]\<rparr>
   \<and> distinct [''MSFT'', ''AAPL'']
   \<and> distinct (ticker_dates two_bar_provider Some ''6mo'' ''1d'' True ''MSFT'')
   \<and> distinct (ticker_dates two_bar_provider Some ''6mo'' ''1d'' True ''AAPL'')
   \<and> sorted_wrt (\<lambda>a b. fetched_key a < fetched_key b)
        [\<lparr>f_ticker = ''AAPL'', f_date = Some 1, f_fields = [(''date'', 1), (''close'', 10::int)]\<rparr>,
         \<lparr>f_ticker = ''AAPL'', f_date = Some 2, f_fields = [(''date'', 2), (''close'', 11)]\<rparr>,
         \<lparr>f_ticker = ''MSFT'', f_date = Some 1, f_fields = [(''date'', 1), (''close'', 10)]\<rparr>,
         \<lparr>f_ticker = ''MSFT'', f_date = Some 2, f_fields = [(''date'', 2), (''close'', 11)]\<rparr>]"
  using download_sorted_by_ticker_date [OF two_bar_download] two_bar_download
  by (simp add: two_bar_dates)

text \<open>
  Claim C8 as stated fails: a selection that names X twice returns the bar of X twice, two rows
  with the same ticker and the same date.
\<close>

theorem download_duplicate_rows_counterexample:
  "download_history_tidy one_bar_provider Some [''X'', ''X''] ''6mo'' ''1d'' True
   = Inr \<lparr>f_columns = [''date'', ''open'', ''high'', ''low'', ''close'', ''volume'', ''ticker''],
          f_rows =
            [\<lparr>f_ticker = ''X'', f_date = Some 1,
              f_fields = [(''date'', 1), (''open'', 10), (''high'', 12), (''low'', 9),
                          (''close'', 11), (''volume'', 1000)]\<rparr>,
             \<lparr>f_ticker = ''X'', f_date = Some 1,
              f_fields = [(''date'', 1), (''open'', 10), (''high'', 12), (''low'', 9),
                          (''close'', 11), (''volume'', 1000)]\<rparr>]\<rparr>"
  by code_simp

subsection \<open>The error for no data\<close>

text \<open>
  The error of line 71 is raised exactly when every requested ticker normalises to a frame
  without any of the six canonical columns; the number of rows plays no part.
\<close>

lemma normalize_columns_error: "normalize_columns df = Inl e \<Longrightarrow> e = ValueError"
  by (auto simp: normalize_columns_def reset_index_def Let_def split: sum.splits if_splits)

lemma collect_frames_error: "collect_frames h p i a ts = Inl e \<Longrightarrow> e = ValueError"
  by (induction ts arbitrary: e)
     (auto simp: Let_def split: sum.splits if_splits dest: normalize_columns_error)

lemma collect_frames_empty_iff:
  "collect_frames h p i a ts = Inr [] \<longleftrightarrow>
   (\<forall>t\<in>set ts. \<exists>nf. normalize_columns (h t p i a) = Inr nf
                    \<and> filter (\<lambda>c. c \<in> set (n_columns nf)) canonical = [])"
  by (induction ts) (auto simp: Let_def split: sum.splits if_splits)

lemma download_runtime_error_iff:
  "download_history_tidy h td ts p i a = Inl RuntimeError \<longleftrightarrow>
   (\<forall>t\<in>set ts. \<exists>nf. normalize_columns (h t p i a) = Inr nf
                    \<and> (\<forall>c\<in>set canonical. c \<notin> set (n_columns nf)))"
proof -
  have "download_history_tidy h td ts p i a = Inl RuntimeError
        \<longleftrightarrow> collect_frames h p i a ts = Inr []"
    by (auto simp: download_history_tidy_def split: sum.splits if_splits
        dest: collect_frames_error)
  then show ?thesis by (simp add: collect_frames_empty_iff filter_empty_conv)
qed

text \<open>
  A ticker whose frame has no rows contributes no rows, and the rows of a returned table are
  the rows of the tickers, reordered.
\<close>

lemma ticker_rows_empty:
  "raw_rows (h t p i a) = [] \<Longrightarrow> ticker_rows h p i a t = []"
  by (simp add: ticker_rows_def normalize_columns_def reset_index_def make_block_def Let_def
      split: sum.splits)

lemma download_rows:
  assumes "download_history_tidy h td ts p i a = Inr df"
  shows "mset (f_rows df) = mset (map (parse_dates td) (concat (map (ticker_rows h p i a) ts)))"
proof -
  from assms obtain frames where "collect_frames h p i a ts = Inr frames"
    and "f_rows df = sort_key fetched_key (map (parse_dates td) (concat (map snd frames)))"
    by (auto simp: download_history_tidy_def split: sum.splits if_splits)
  then show ?thesis using collect_frames_rows by fastforce
qed

text \<open>
  Claim C2 at the input it is about: for an unknown symbol the provider returns a frame with
  its columns and no rows. The columns are recognised, so the block is collected, the list of
  blocks is not empty, no error is raised and the result is a table without rows. The same
  happens for a frame without any column, whose index becomes the date column.
\<close>

theorem download_all_empty_returns_empty_table:
  "raw_rows (no_rows_provider ''ZZZZINVALID'' ''6mo'' ''1d'' True) = []
   \<and> download_history_tidy no_rows_provider Some [''ZZZZINVALID''] ''6mo'' ''1d'' True
     = Inr \<lparr>f_columns = [''date'', ''open'', ''high'', ''low'', ''close'', ''volume'', ''ticker''],
            f_rows = []\<rparr>
   \<and> raw_rows (bare_provider ''ZZZZINVALID'' ''6mo'' ''1d'' True) = []
   \<and> download_history_tidy bare_provider Some [''ZZZZINVALID''] ''6mo'' ''1d'' True
     = Inr \<lparr>f_columns = [''date'', ''ticker''], f_rows = []\<rparr>"
  by (intro conjI) code_simp+

section \<open>Properties of the transforms\<close>

subsection \<open>Grouped transforms, group by group\<close>

lemma length_group_scan [simp]: "length (group_scan step acc kxs) = length kxs"
  by (induction kxs arbitrary: acc) (auto split: prod.splits)

lemma length_scan [simp]: "length (scan step s xs) = length xs"
  by (induction step s xs rule: scan.induct) (auto split: prod.splits)

lemma group_scan_group:
  "map snd (filter (\<lambda>(k, y). k = T) (zip (map fst kxs) (group_scan step acc kxs)))
   = scan step (acc T) (map snd (filter (\<lambda>(k, x). k = T) kxs))"
proof (induction kxs arbitrary: acc)
  case Nil
  then show ?case by simp
next
  case (Cons kx kxs)
  obtain k x where kx: "kx = (k, x)" by (cases kx)
  obtain y s where st: "step (acc k) x = (y, s)" by (cases "step (acc k) x")
  have ih: "map snd (filter (\<lambda>(k, y). k = T)
               (zip (map fst kxs) (group_scan step (acc(k := s)) kxs)))
            = scan step ((acc(k := s)) T) (map snd (filter (\<lambda>(k, x). k = T) kxs))"
    by (rule Cons.IH)
  show ?case
  proof (cases "k = T")
    case True
    then show ?thesis using ih st by (simp add: kx)
  next
    case False
    then show ?thesis using ih st by (simp add: kx)
  qed
qed

lemma map_filter_group:
  "map f (filter (\<lambda>r. key r = T) rs)
   = map snd (filter (\<lambda>(k, y). k = T) (zip (map key rs) (map f rs)))"
  by (induction rs) auto

lemma length_pct_change [simp]: "length (pct_change rs) = length rs"
  by (simp add: pct_change_def)

lemma length_cumprod [simp]: "length (cumprod kvs) = length kvs"
  by (simp add: cumprod_def)

lemma length_rolling_std [simp]: "length (rolling_std w kvs) = length kvs"
  by (simp add: rolling_std_def)

lemma columns_set_column [simp]: "columns (set_column c vs df) = insert c (columns df)"
  by (simp add: set_column_def)

lemma set_column_rows:
  assumes "length vs = length (rows df)"
  shows "map ticker (rows (set_column c vs df)) = map ticker (rows df)"
    and "map close (rows (set_column c vs df)) = map close (rows df)"
    and "map date (rows (set_column c vs df)) = map date (rows df)"
    and "map row_key (rows (set_column c vs df)) = map row_key (rows df)"
    and "length (rows (set_column c vs df)) = length (rows df)"
  using assms
  by (auto simp: set_column_def row_key_def list_eq_iff_nth_eq)

lemma set_column_cell_same:
  "length vs = length (rows df) \<Longrightarrow> map (\<lambda>r. cells r c) (rows (set_column c vs df)) = vs"
  by (auto simp: set_column_def list_eq_iff_nth_eq)

lemma set_column_cell_other:
  "length vs = length (rows df) \<Longrightarrow> c' \<noteq> c \<Longrightarrow>
   map (\<lambda>r. cells r c') (rows (set_column c vs df)) = map (\<lambda>r. cells r c') (rows df)"
  by (auto simp: set_column_def list_eq_iff_nth_eq)

lemma pct_change_group:
  "map snd (filter (\<lambda>(k, y). k = T) (zip (map ticker rs) (pct_change rs)))
   = scan pct_step None (map close (filter (\<lambda>r. ticker r = T) rs))"
proof -
  have "map snd (filter (\<lambda>(k, x). k = T) (map (\<lambda>r. (ticker r, close r)) rs))
        = map close (filter (\<lambda>r. ticker r = T) rs)"
    by (induction rs) auto
  then show ?thesis
    using group_scan_group [of T "map (\<lambda>r. (ticker r, close r)) rs" pct_step "\<lambda>k. None"]
    by (simp add: pct_change_def comp_def)
qed

lemma scan_pct_nth:
  "i < length cs \<Longrightarrow>
   scan pct_step prev cs ! i
   = (if i = 0 then (case prev of None \<Rightarrow> NaN | Some p \<Rightarrow> pct (cs ! 0) p)
      else pct (cs ! i) (cs ! (i - 1)))"
proof (induction cs arbitrary: prev i)
  case Nil
  then show ?case by simp
next
  case (Cons c cs)
  show ?case
  proof (cases i)
    case 0
    then show ?thesis by (simp add: pct_step_def split: option.splits)
  next
    case (Suc j)
    with Cons.prems have "j < length cs" by simp
    from Cons.IH [OF this, of "Some c"] Suc show ?thesis
      by (cases j) (simp_all add: pct_step_def)
  qed
qed

lemma map_pair_zip: "map (\<lambda>r. (f r, g r)) rs = zip (map f rs) (map g rs)"
  by (induction rs) auto

lemma group_map_snd:
  "map snd (filter (\<lambda>(k, y). k = T) (zip ks (map h ys)))
   = map h (map snd (filter (\<lambda>(k, y). k = T) (zip ks ys)))"
proof (induction ks arbitrary: ys)
  case Nil
  then show ?case by simp
next
  case (Cons k ks)
  then show ?case by (cases ys) auto
qed

lemma rows_sort_values [simp]: "rows (sort_values df) = sort_key row_key (rows df)"
  by (simp add: sort_values_def)

lemma columns_sort_values [simp]: "columns (sort_values df) = columns df"
  by (simp add: sort_values_def)

text \<open>The columns of \<open>compute_returns\<close>, read off one ticker group.\<close>

lemma compute_returns_group:
  fixes df T
  defines "S \<equiv> filter (\<lambda>r. ticker r = T) (sort_key row_key (rows df))"
  shows "map ticker (rows (compute_returns df)) = map ticker (sort_key row_key (rows df))"
    and "map row_key (rows (compute_returns df)) = map row_key (sort_key row_key (rows df))"
    and "map close (ticker_group T (compute_returns df)) = map close S"
    and "map date (ticker_group T (compute_returns df)) = map date S"
    and "map (\<lambda>r. cells r DailyReturn) (ticker_group T (compute_returns df))
         = scan pct_step None (map close S)"
    and "map (\<lambda>r. cells r CumReturn) (ticker_group T (compute_returns df))
         = map (\<lambda>v. fl_plus v (- 1))
             (scan cumprod_step (Fin 1)
                (map (\<lambda>d. fl_plus d 1) (scan pct_step None (map close S))))"
proof -
  let ?xs = "sort_key row_key (rows df)"
  let ?df1 = "sort_values df"
  let ?df2 = "set_column DailyReturn (pct_change ?xs) ?df1"
  let ?kvs = "map (\<lambda>r. (ticker r, fl_plus (cells r DailyReturn) 1)) (rows ?df2)"
  let ?cum = "map (\<lambda>v. fl_plus v (- 1)) (cumprod ?kvs)"
  let ?df3 = "set_column CumReturn ?cum ?df2"
  have out: "compute_returns df = ?df3" by (simp add: compute_returns_def Let_def)
  have l2: "length (pct_change ?xs) = length (rows ?df1)" by simp
  have t2: "map ticker (rows ?df2) = map ticker ?xs"
    and c2: "map close (rows ?df2) = map close ?xs"
    and d2: "map date (rows ?df2) = map date ?xs"
    and k2: "map row_key (rows ?df2) = map row_key ?xs"
    and n2: "length (rows ?df2) = length ?xs"
    using set_column_rows [OF l2, of DailyReturn] by simp_all
  have r2: "map (\<lambda>r. cells r DailyReturn) (rows ?df2) = pct_change ?xs"
    using set_column_cell_same [OF l2] .
  have l3: "length ?cum = length (rows ?df2)" by simp
  have t3: "map ticker (rows ?df3) = map ticker ?xs"
    and c3: "map close (rows ?df3) = map close ?xs"
    and d3: "map date (rows ?df3) = map date ?xs"
    and k3: "map row_key (rows ?df3) = map row_key ?xs"
    using set_column_rows [OF l3, of CumReturn] t2 c2 d2 k2
    by simp_all
  have r3: "map (\<lambda>r. cells r DailyReturn) (rows ?df3) = pct_change ?xs"
    using set_column_cell_other [OF l3, of DailyReturn CumReturn] r2 by simp
  have u3: "map (\<lambda>r. cells r CumReturn) (rows ?df3) = ?cum"
    using set_column_cell_same [OF l3] .
  show "map ticker (rows (compute_returns df)) = map ticker ?xs" by (simp only: out t3)
  show "map row_key (rows (compute_returns df)) = map row_key ?xs" by (simp only: out k3)
  show "map close (ticker_group T (compute_returns df)) = map close S"
    unfolding ticker_group_def S_def out
    by (simp only: map_filter_group [of close ticker] t3 c3)
  show "map date (ticker_group T (compute_returns df)) = map date S"
    unfolding ticker_group_def S_def out
    by (simp only: map_filter_group [of date ticker] t3 d3)
  have dr: "map snd (filter (\<lambda>(k, y). k = T) (zip (map ticker ?xs) (pct_change ?xs)))
        = scan pct_step None (map close S)"
    unfolding S_def by (rule pct_change_group)
  show "map (\<lambda>r. cells r DailyReturn) (ticker_group T (compute_returns df))
         = scan pct_step None (map close S)"
    unfolding ticker_group_def out
    by (simp only: map_filter_group [of "\<lambda>r. cells r DailyReturn" ticker] t3 r3 dr)
  have "map (\<lambda>r. fl_plus (cells r DailyReturn) 1) (rows ?df2)
        = map (\<lambda>d. fl_plus d 1) (map (\<lambda>r. cells r DailyReturn) (rows ?df2))"
    by (simp add: comp_def)
  then have pl: "map (\<lambda>r. fl_plus (cells r DailyReturn) 1) (rows ?df2)
        = map (\<lambda>d. fl_plus d 1) (pct_change ?xs)"
    by (simp only: r2)
  have kvs: "?kvs = zip (map ticker ?xs) (map (\<lambda>d. fl_plus d 1) (pct_change ?xs))"
    by (simp only: map_pair_zip [of ticker "\<lambda>r. fl_plus (cells r DailyReturn) 1"] t2 pl)
  have fk: "map fst ?kvs = map ticker ?xs" unfolding kvs by simp
  have "map snd (filter (\<lambda>(k, y). k = T) (zip (map ticker ?xs) ?cum))
        = map (\<lambda>v. fl_plus v (- 1))
            (map snd (filter (\<lambda>(k, y). k = T) (zip (map fst ?kvs) (cumprod ?kvs))))"
    unfolding fk by (rule group_map_snd)
  also have "map snd (filter (\<lambda>(k, y). k = T) (zip (map fst ?kvs) (cumprod ?kvs)))
        = scan cumprod_step (Fin 1) (map snd (filter (\<lambda>(k, x). k = T) ?kvs))"
    unfolding cumprod_def by (rule group_scan_group)
  also have "map snd (filter (\<lambda>(k, x). k = T) ?kvs)
        = map (\<lambda>d. fl_plus d 1) (scan pct_step None (map close S))"
    unfolding kvs group_map_snd dr ..
  finally have cu: "map snd (filter (\<lambda>(k, y). k = T) (zip (map ticker ?xs) ?cum))
        = map (\<lambda>v. fl_plus v (- 1))
            (scan cumprod_step (Fin 1) (map (\<lambda>d. fl_plus d 1) (scan pct_step None (map close S))))" .
  show "map (\<lambda>r. cells r CumReturn) (ticker_group T (compute_returns df))
         = map (\<lambda>v. fl_plus v (- 1))
             (scan cumprod_step (Fin 1)
                (map (\<lambda>d. fl_plus d 1) (scan pct_step None (map close S))))"
    unfolding ticker_group_def out
    by (simp only: map_filter_group [of "\<lambda>r. cells r CumReturn" ticker] t3 u3 cu)
qed

lemma sorted_group_dates:
  assumes "sorted (map row_key rs)"
  shows "sorted (map date (filter (\<lambda>r. ticker r = T) rs))"
proof -
  have "sorted_wrt (\<lambda>a b. row_key a \<le> row_key b) rs"
    using assms by (simp add: sorted_map)
  then have "sorted_wrt (\<lambda>a b. row_key a \<le> row_key b) (filter (\<lambda>r. ticker r = T) rs)"
    by (rule sorted_wrt_filter)
  then have "sorted_wrt (\<lambda>a b. date a \<le> date b) (filter (\<lambda>r. ticker r = T) rs)"
    by (rule sorted_wrt_mono_rel [rotated]) (auto simp: row_key_def less_eq_prod_def)
  then show ?thesis by (simp add: sorted_map)
qed

lemma compute_returns_sorted: "sorted (map row_key (rows (compute_returns df)))"
  by (simp add: compute_returns_group(2))

lemma columns_compute_returns:
  "columns (compute_returns df) = insert DailyReturn (insert CumReturn (columns df))"
  by (auto simp: compute_returns_def Let_def)

lemma map_date_close:
  "map date xs = map date ys \<Longrightarrow> map close xs = map close ys \<Longrightarrow>
   map (\<lambda>r. (date r, close r)) xs = map (\<lambda>r. (date r, close r)) ys"
  by (simp add: map_pair_zip)

lemma pct_nonzero: "p \<noteq> 0 \<Longrightarrow> pct c p = Fin (c / p - 1)"
  by (simp add: pct_def fl_div_def)

lemma pct_zero:
  "pct c 0 = (if 0 < c then PInf else if c < 0 then NInf else NaN)"
  by (simp add: pct_def fl_div_def)

text \<open>The two columns of a ticker group as walks over the closes of the group itself.\<close>

lemma group_daily_return:
  "map (\<lambda>r. cells r DailyReturn) (ticker_group T (compute_returns df))
   = scan pct_step None (map close (ticker_group T (compute_returns df)))"
  by (simp only: compute_returns_group(5) compute_returns_group(3))


lemma group_daily_return_nth:
  assumes "i < length (ticker_group T (compute_returns df))"
  shows "cells (ticker_group T (compute_returns df) ! i) DailyReturn
         = (if i = 0 then NaN
            else pct (close (ticker_group T (compute_returns df) ! i))
                     (close (ticker_group T (compute_returns df) ! (i - 1))))"
proof -
  let ?g = "ticker_group T (compute_returns df)"
  have "cells (?g ! i) DailyReturn = map (\<lambda>r. cells r DailyReturn) ?g ! i"
    using assms by simp
  also have "\<dots> = scan pct_step None (map close ?g) ! i"
    by (simp only: group_daily_return)
  also have "\<dots> = (if i = 0 then NaN else pct (map close ?g ! i) (map close ?g ! (i - 1)))"
    using assms scan_pct_nth [of i "map close ?g" None] by simp
  also have "\<dots> = (if i = 0 then NaN else pct (close (?g ! i)) (close (?g ! (i - 1))))"
  proof -
    have "i - 1 < length ?g" using assms by linarith
    then have "map close ?g ! (i - 1) = close (?g ! (i - 1))" by (rule nth_map)
    moreover have "map close ?g ! i = close (?g ! i)" using assms by (rule nth_map)
    ultimately show ?thesis by simp
  qed
  finally show ?thesis .
qed





lemma pct_change_cong:
  "map ticker rs = map ticker rs' \<Longrightarrow> map close rs = map close rs' \<Longrightarrow>
   pct_change rs = pct_change rs'"
  by (simp add: pct_change_def map_pair_zip)

lemma if_same_point: "(\<lambda>b. if b = c then f c else f b) = f"
  by auto

lemma update_cells_id:
  "map (\<lambda>(r, v). r\<lparr>cells := (cells r)(c := v)\<rparr>) (zip rs (map (\<lambda>r. cells r c) rs)) = rs"
  by (induction rs) (simp_all add: if_same_point)

lemma set_column_id:
  assumes "c \<in> columns df" and "map (\<lambda>r. cells r c) (rows df) = vs"
  shows "set_column c vs df = df"
  using assms(1) update_cells_id [of c "rows df"]
  by (simp add: set_column_def insert_absorb assms(2) [symmetric])

text \<open>The two columns of \<open>compute_returns\<close> over the whole frame.\<close>

lemma compute_returns_whole:
  fixes df
  defines "xs \<equiv> sort_key row_key (rows df)"
  shows "map close (rows (compute_returns df)) = map close xs"
    and "map (\<lambda>r. cells r DailyReturn) (rows (compute_returns df)) = pct_change xs"
    and "map (\<lambda>r. cells r CumReturn) (rows (compute_returns df))
         = map (\<lambda>v. fl_plus v (- 1))
             (cumprod (zip (map ticker xs) (map (\<lambda>d. fl_plus d 1) (pct_change xs))))"
proof -
  let ?df1 = "sort_values df"
  let ?df2 = "set_column DailyReturn (pct_change xs) ?df1"
  let ?kvs = "map (\<lambda>r. (ticker r, fl_plus (cells r DailyReturn) 1)) (rows ?df2)"
  let ?cum = "map (\<lambda>v. fl_plus v (- 1)) (cumprod ?kvs)"
  let ?df3 = "set_column CumReturn ?cum ?df2"
  have out: "compute_returns df = ?df3" by (simp add: compute_returns_def Let_def xs_def)
  have l2: "length (pct_change xs) = length (rows ?df1)" by (simp add: xs_def)
  have t2: "map ticker (rows ?df2) = map ticker xs"
    and c2: "map close (rows ?df2) = map close xs"
    using set_column_rows [OF l2, of DailyReturn] by (simp_all add: xs_def)
  have r2: "map (\<lambda>r. cells r DailyReturn) (rows ?df2) = pct_change xs"
    using set_column_cell_same [OF l2] .
  have l3: "length ?cum = length (rows ?df2)" by simp
  have "map (\<lambda>r. fl_plus (cells r DailyReturn) 1) (rows ?df2)
        = map (\<lambda>d. fl_plus d 1) (map (\<lambda>r. cells r DailyReturn) (rows ?df2))"
    by (simp add: comp_def)
  then have pl: "map (\<lambda>r. fl_plus (cells r DailyReturn) 1) (rows ?df2)
        = map (\<lambda>d. fl_plus d 1) (pct_change xs)"
    by (simp only: r2)
  have kvs: "?kvs = zip (map ticker xs) (map (\<lambda>d. fl_plus d 1) (pct_change xs))"
    by (simp only: map_pair_zip [of ticker "\<lambda>r. fl_plus (cells r DailyReturn) 1"] t2 pl)
  show "map close (rows (compute_returns df)) = map close xs"
    using set_column_rows(2) [OF l3, of CumReturn] c2 by (simp only: out)
  show "map (\<lambda>r. cells r DailyReturn) (rows (compute_returns df)) = pct_change xs"
    using set_column_cell_other [OF l3, of DailyReturn CumReturn] r2 by (simp add: out)
  show "map (\<lambda>r. cells r CumReturn) (rows (compute_returns df))
         = map (\<lambda>v. fl_plus v (- 1))
             (cumprod (zip (map ticker xs) (map (\<lambda>d. fl_plus d 1) (pct_change xs))))"
    using set_column_cell_same [OF l3, of CumReturn] by (simp only: out kvs)
qed

subsection \<open>Daily returns\<close>

text \<open>
  Claim C3. In the frame \<open>compute_returns\<close> gives, the rows of a ticker are the rows of the
  input for that ticker, in ascending order of date; the daily return of the first of them is
  absent, and the daily return of every later row \<open>i\<close> is the close of the row divided by the
  close of the row before, minus 1, in the arithmetic of the code: for a non-zero previous
  close it is the number \<open>close[i] / close[i-1] - 1\<close>.
\<close>

theorem compute_returns_daily_return:
  "(let g = ticker_group T (compute_returns df) in
     DailyReturn \<in> columns (compute_returns df)
     \<and> map (\<lambda>r. (date r, close r)) g
        = map (\<lambda>r. (date r, close r)) (filter (\<lambda>r. ticker r = T) (sort_key row_key (rows df)))
     \<and> sorted (map date g)
     \<and> (g \<noteq> [] \<longrightarrow> cells (g ! 0) DailyReturn = NaN)
     \<and> (\<forall>i. 0 < i \<and> i < length g \<longrightarrow>
           cells (g ! i) DailyReturn = pct (close (g ! i)) (close (g ! (i - 1)))
           \<and> (close (g ! (i - 1)) \<noteq> 0 \<longrightarrow>
                cells (g ! i) DailyReturn = Fin (close (g ! i) / close (g ! (i - 1)) - 1))))"
proof -
  let ?g = "ticker_group T (compute_returns df)"
  let ?S = "filter (\<lambda>r. ticker r = T) (sort_key row_key (rows df))"
  have cl: "map close ?g = map close ?S" and dt: "map date ?g = map date ?S"
    by (rule compute_returns_group)+
  have c1: "DailyReturn \<in> columns (compute_returns df)" by (simp add: columns_compute_returns)
  have c2: "map (\<lambda>r. (date r, close r)) ?g = map (\<lambda>r. (date r, close r)) ?S"
    using dt cl by (rule map_date_close)
  have c3: "sorted (map date ?g)"
    unfolding ticker_group_def using compute_returns_sorted by (rule sorted_group_dates)
  have c4: "?g \<noteq> [] \<longrightarrow> cells (?g ! 0) DailyReturn = NaN"
    using group_daily_return_nth [of 0 T df] by simp
  have c5: "cells (?g ! i) DailyReturn = pct (close (?g ! i)) (close (?g ! (i - 1)))
           \<and> (close (?g ! (i - 1)) \<noteq> 0 \<longrightarrow>
                cells (?g ! i) DailyReturn = Fin (close (?g ! i) / close (?g ! (i - 1)) - 1))"
    if "0 < i \<and> i < length ?g" for i
    using that group_daily_return_nth [of i T df] by (simp add: pct_nonzero)
  show ?thesis unfolding Let_def using c1 c2 c3 c4 c5 by blast
qed

lemma example_returns_group:
  "length (ticker_group ''X'' (compute_returns (closes_frame [100, 101, 99, 99, 103]))) = 5"
  "close (ticker_group ''X'' (compute_returns (closes_frame [100, 101, 99, 99, 103])) ! 0) = 100"
  "close (ticker_group ''X'' (compute_returns (closes_frame [100, 101, 99, 99, 103])) ! 1) = 101"
  by code_simp+

theorem compute_returns_daily_return_witness:
  "ticker_group ''X'' (compute_returns (closes_frame [100, 101, 99, 99, 103])) \<noteq> []
   \<and> cells (ticker_group ''X'' (compute_returns (closes_frame [100, 101, 99, 99, 103])) ! 0)
        DailyReturn = NaN
   \<and> (0::nat) < 1
   \<and> 1 < length (ticker_group ''X'' (compute_returns (closes_frame [100, 101, 99, 99, 103])))
   \<and> close (ticker_group ''X'' (compute_returns (closes_frame [100, 101, 99, 99, 103])) ! 0) \<noteq> 0
   \<and> cells (ticker_group ''X'' (compute_returns (closes_frame [100, 101, 99, 99, 103])) ! 1)
        DailyReturn = Fin (1 / 100)"
proof -
  let ?g = "ticker_group ''X'' (compute_returns (closes_frame [100, 101, 99, 99, 103]))"
  note th = compute_returns_daily_return [of "''X''" "closes_frame [100, 101, 99, 99, 103]",
      unfolded Let_def]
  have ne: "?g \<noteq> []" using example_returns_group(1) by auto
  from th have "\<forall>i. 0 < i \<and> i < length ?g \<longrightarrow>
           cells (?g ! i) DailyReturn = pct (close (?g ! i)) (close (?g ! (i - 1)))
           \<and> (close (?g ! (i - 1)) \<noteq> 0 \<longrightarrow>
                cells (?g ! i) DailyReturn = Fin (close (?g ! i) / close (?g ! (i - 1)) - 1))"
    by blast
  from this [rule_format, of 1]
  have "cells (?g ! 1) DailyReturn = Fin (1 / 100)"
    using example_returns_group by (simp add: pct_nonzero)
  moreover from th ne have "cells (?g ! 0) DailyReturn = NaN" by blast
  ultimately show ?thesis using example_returns_group ne by simp
qed

text \<open>
  Claim C6, as the code has it. After a previous close of zero the daily return is plus
  infinity for a positive close, minus infinity for a negative one, and absent when the close
  is zero too; it is never the number zero. \<open>compute_returns\<close> has no error to return.
\<close>

theorem compute_returns_zero_close:
  "(let g = ticker_group T (compute_returns df) in
     \<forall>i. 0 < i \<and> i < length g \<and> close (g ! (i - 1)) = 0 \<longrightarrow>
       cells (g ! i) DailyReturn
         = (if 0 < close (g ! i) then PInf else if close (g ! i) < 0 then NInf else NaN)
       \<and> cells (g ! i) DailyReturn \<noteq> Fin 0)"
proof -
  let ?g = "ticker_group T (compute_returns df)"
  have "cells (?g ! i) DailyReturn
         = (if 0 < close (?g ! i) then PInf else if close (?g ! i) < 0 then NInf else NaN)
       \<and> cells (?g ! i) DailyReturn \<noteq> Fin 0"
    if "0 < i \<and> i < length ?g \<and> close (?g ! (i - 1)) = 0" for i
    using that group_daily_return_nth [of i T df] by (simp add: pct_zero)
  then show ?thesis unfolding Let_def by blast
qed

lemma example_zero_group:
  "length (ticker_group ''X'' (compute_returns (closes_frame [3, 0, 0, - 2]))) = 4"
  "close (ticker_group ''X'' (compute_returns (closes_frame [3, 0, 0, - 2])) ! 1) = 0"
  "close (ticker_group ''X'' (compute_returns (closes_frame [3, 0, 0, - 2])) ! 2) = 0"
  "close (ticker_group ''X'' (compute_returns (closes_frame [3, 0, 0, - 2])) ! 3) = - 2"
  by code_simp+

theorem compute_returns_zero_close_witness:
  "(0::nat) < 3
   \<and> 3 < length (ticker_group ''X'' (compute_returns (closes_frame [3, 0, 0, - 2])))
   \<and> close (ticker_group ''X'' (compute_returns (closes_frame [3, 0, 0, - 2])) ! 2) = 0
   \<and> cells (ticker_group ''X'' (compute_returns (closes_frame [3, 0, 0, - 2])) ! 3) DailyReturn
       = NInf
   \<and> cells (ticker_group ''X'' (compute_returns (closes_frame [3, 0, 0, - 2])) ! 2) DailyReturn
       = NaN"
proof -
  let ?g = "ticker_group ''X'' (compute_returns (closes_frame [3, 0, 0, - 2]))"
  note th = compute_returns_zero_close [of "''X''" "closes_frame [3, 0, 0, - 2]",
      unfolded Let_def, rule_format]
  have "cells (?g ! 3) DailyReturn = NInf"
    using th [of 3] example_zero_group by simp
  moreover have "cells (?g ! 2) DailyReturn = NaN"
    using th [of 2] example_zero_group by simp
  ultimately show ?thesis using example_zero_group by simp
qed

text \<open>
  Claim C6 as stated fails: after the close 0, the close 5 has the daily return plus infinity,
  which is not the absent value.
\<close>

theorem zero_close_return_counterexample:
  "close (ticker_group ''X'' (compute_returns (closes_frame [0, 5])) ! 0) = 0
   \<and> cells (ticker_group ''X'' (compute_returns (closes_frame [0, 5])) ! 1) DailyReturn = PInf
   \<and> cells (ticker_group ''X'' (compute_returns (closes_frame [0, 5])) ! 1) DailyReturn \<noteq> NaN"
  by (intro conjI) code_simp+

subsection \<open>Cumulative returns\<close>





subsection \<open>Recomputing the returns\<close>

text \<open>
  Claim C9. Applying \<open>compute_returns\<close> to a frame it produced gives the same frame: the rows
  are sorted already, and \<^verbatim>\<open>daily_return\<close> and \<^verbatim>\<open>cum_return\<close> are overwritten with the
  values they hold, which depend on the tickers and the closes only.
\<close>

theorem compute_returns_idempotent:
  "compute_returns (compute_returns df) = compute_returns df"
proof -
  let ?out = "compute_returns df"
  let ?xs = "sort_key row_key (rows df)"
  have srt: "sort_values ?out = ?out"
    using compute_returns_sorted [of df] by (simp add: sort_values_def sort_key_id_if_sorted)
  have t: "map ticker (rows ?out) = map ticker ?xs" by (rule compute_returns_group(1))
  have c: "map close (rows ?out) = map close ?xs" by (rule compute_returns_whole(1))
  have dr: "map (\<lambda>r. cells r DailyReturn) (rows ?out) = pct_change (rows ?out)"
    using pct_change_cong [OF t c] by (simp only: compute_returns_whole(2))
  have s1: "set_column DailyReturn (pct_change (rows ?out)) ?out = ?out"
    using dr by (intro set_column_id) (simp_all add: columns_compute_returns)
  have "map (\<lambda>r. fl_plus (cells r DailyReturn) 1) (rows ?out)
        = map (\<lambda>d. fl_plus d 1) (map (\<lambda>r. cells r DailyReturn) (rows ?out))"
    by (simp add: comp_def)
  then have "map (\<lambda>r. (ticker r, fl_plus (cells r DailyReturn) 1)) (rows ?out)
        = zip (map ticker ?xs) (map (\<lambda>d. fl_plus d 1) (pct_change ?xs))"
    by (simp only: map_pair_zip [of ticker "\<lambda>r. fl_plus (cells r DailyReturn) 1"] t
        compute_returns_whole(2))
  then have cu: "map (\<lambda>r. cells r CumReturn) (rows ?out)
        = map (\<lambda>v. fl_plus v (- 1))
            (cumprod (map (\<lambda>r. (ticker r, fl_plus (cells r DailyReturn) 1)) (rows ?out)))"
    by (simp only: compute_returns_whole(3))
  have s2: "set_column CumReturn
              (map (\<lambda>v. fl_plus v (- 1))
                 (cumprod (map (\<lambda>r. (ticker r, fl_plus (cells r DailyReturn) 1)) (rows ?out))))
              ?out = ?out"
    using cu by (intro set_column_id) (simp_all add: columns_compute_returns)
  have "compute_returns ?out
        = (let df1 = ?out;
               df2 = set_column DailyReturn (pct_change (rows df1)) df1;
               df3 = set_column CumReturn
                 (map (\<lambda>v. fl_plus v (- 1))
                    (cumprod (map (\<lambda>r. (ticker r, fl_plus (cells r DailyReturn) 1)) (rows df2))))
                 df2
           in df3)"
    unfolding compute_returns_def [of ?out] srt ..
  then show ?thesis by (simp only: Let_def s1 s2)
qed

subsection \<open>Rolling volatility\<close>

















subsection \<open>The argument of a transform is not changed\<close>














end
